theory Spec2Isabelle
  imports Main "HOL-Library.Sublist" "HOL-Library.Multiset" "HOL-Library.Word"
begin

section \<open>Secret names: the env parser's validation (env-parser)\<close>

subsection \<open>The regular expression of \<open>validateSecretName\<close>\<close>

text \<open>
  The source tests a name against the literal
  \<^verbatim>\<open>/^(?!GITHUB_)[A-Za-z_][A-Za-z0-9_]*$/\<close>.
  The pattern has no flags, so \<^verbatim>\<open>^\<close> matches at index 0 only and
  \<^verbatim>\<open>$\<close> at the end of the input only: \<^verbatim>\<open>pattern.test(name)\<close>
  is an anchored match of the whole string. Between the anchors the pattern is a sequence
  of three items: a negative lookahead for a literal, one character of a class, and any
  number of characters of a class. A class is a list of inclusive character ranges.
  A name is a string of 8-bit characters here; a code unit of a JavaScript string beyond
  that range is in no class of the pattern, like any character outside the ranges.
\<close>

type_synonym char_class = "(char \<times> char) list"

datatype item =
    NotAhead string
  | OneOf char_class
  | ManyOf char_class

fun in_class :: "char_class \<Rightarrow> char \<Rightarrow> bool" where
  "in_class [] c = False"
| "in_class ((lo, hi) # rs) c =
     (((of_char lo :: nat) \<le> of_char c \<and> (of_char c :: nat) \<le> of_char hi) \<or> in_class rs c)"

text \<open>
  \<open>matches items s\<close>: the items match all of \<open>s\<close>, from its start to its end.
  A lookahead consumes nothing; a starred class either stops or takes one more character.
\<close>

fun matches :: "item list \<Rightarrow> string \<Rightarrow> bool" where
  "matches [] s = (s = [])"
| "matches (NotAhead lit # items) s = (take (length lit) s \<noteq> lit \<and> matches items s)"
| "matches (OneOf cls # items) [] = False"
| "matches (OneOf cls # items) (c # cs) = (in_class cls c \<and> matches items cs)"
| "matches (ManyOf cls # items) [] = matches items []"
| "matches (ManyOf cls # items) (c # cs) =
     (matches items (c # cs) \<or> (in_class cls c \<and> matches (ManyOf cls # items) cs))"

definition name_head :: char_class where
  "name_head = [(CHR ''A'', CHR ''Z''), (CHR ''a'', CHR ''z''), (CHR ''_'', CHR ''_'')]"

definition name_tail :: char_class where
  "name_tail = [(CHR ''A'', CHR ''Z''), (CHR ''a'', CHR ''z''), (CHR ''0'', CHR ''9''),
                (CHR ''_'', CHR ''_'')]"

definition pattern :: "item list" where
  "pattern = [NotAhead ''GITHUB_'', OneOf name_head, ManyOf name_tail]"

definition validateSecretName :: "string \<Rightarrow> bool" where
  "validateSecretName name = matches pattern name"

subsection \<open>The name rule in the specification's words\<close>

text \<open>
  The specification describes a valid name without a lookahead: it matches
  \<^verbatim>\<open>^[A-Za-z_][A-Za-z0-9_]*$\<close> (a letter or underscore, then letters, digits
  and underscores only) and does not start with the prefix \<^verbatim>\<open>GITHUB_\<close>.
\<close>

definition is_letter :: "char \<Rightarrow> bool" where
  "is_letter c =
     (((65::nat) \<le> of_char c \<and> (of_char c :: nat) \<le> 90) \<or>
      ((97::nat) \<le> of_char c \<and> (of_char c :: nat) \<le> 122))"

definition is_digit :: "char \<Rightarrow> bool" where
  "is_digit c = ((48::nat) \<le> of_char c \<and> (of_char c :: nat) \<le> 57)"

definition identifier_spec :: "string \<Rightarrow> bool" where
  "identifier_spec name =
     (case name of
        [] \<Rightarrow> False
      | c # cs \<Rightarrow> (is_letter c \<or> c = CHR ''_'') \<and>
                 list_all (\<lambda>d. is_letter d \<or> is_digit d \<or> d = CHR ''_'') cs)"

definition isValidName_spec :: "string \<Rightarrow> bool" where
  "isValidName_spec name = (identifier_spec name \<and> \<not> prefix ''GITHUB_'' name)"

subsection \<open>Objects with string values, and \<open>filterValidSecrets\<close>\<close>

text \<open>
  A \<^verbatim>\<open>Record<string, string>\<close> is modelled by the list of its own enumerable
  properties in the order \<^verbatim>\<open>Object.entries\<close> yields them; an object has each
  key once. \<open>obj_set obj k v\<close> is the assignment \<^verbatim>\<open>obj[k] = v\<close> on an ordinary
  object created by \<^verbatim>\<open>{}\<close>, with \<open>v\<close> a string: an own property is overwritten in
  place and a new key is added last, except that \<^verbatim>\<open>__proto__\<close>, when it is not an
  own property, reaches the accessor inherited from \<^verbatim>\<open>Object.prototype\<close>, whose
  setter ignores a value that is neither an object nor null, so the object is left as it
  was. (Keys that are array indices would be listed first by \<^verbatim>\<open>Object.entries\<close>;
  \<open>filterValidSecrets\<close> only assigns keys that start with a letter or an underscore.)
\<close>

type_synonym js_record = "(string \<times> string) list"

fun assign :: "string \<Rightarrow> string \<Rightarrow> js_record \<Rightarrow> js_record" where
  "assign k v [] = [(k, v)]"
| "assign k v ((k', v') # ps) = (if k' = k then (k, v) # ps else (k', v') # assign k v ps)"

definition obj_set :: "js_record \<Rightarrow> string \<Rightarrow> string \<Rightarrow> js_record" where
  "obj_set obj k v =
     (if k = ''__proto__'' \<and> map_of obj k = None then obj else assign k v obj)"

record filter_result =
  valid :: js_record
  invalid :: "string list"

text \<open>The \<^verbatim>\<open>for ... of Object.entries(secrets)\<close> loop, with its two accumulators.\<close>

fun filter_loop :: "(string \<times> string) list \<Rightarrow> js_record \<Rightarrow> string list \<Rightarrow> filter_result" where
  "filter_loop [] valid' invalid' = \<lparr>valid = valid', invalid = invalid'\<rparr>"
| "filter_loop ((name, val) # rest) valid' invalid' =
     (if validateSecretName name
      then filter_loop rest (obj_set valid' name val) invalid'
      else filter_loop rest valid' (invalid' @ [name]))"

definition filterValidSecrets :: "js_record \<Rightarrow> filter_result" where
  "filterValidSecrets secrets = filter_loop secrets [] []"

section \<open>The device flow: polling the token endpoint (oauth)\<close>

subsection \<open>Thrown values and the token endpoint's replies\<close>

text \<open>
  A thrown value is an instance of \<^verbatim>\<open>Error\<close> (or of a subclass, such as the HTTP
  client's errors), with its \<^verbatim>\<open>message\<close>, or any other value, kept as the string
  \<^verbatim>\<open>String(value)\<close> gives.
\<close>

datatype exn =
    Error string
  | Thrown string

text \<open>
  The body of a reply of the token endpoint (\<^verbatim>\<open>response.data\<close>) is whatever
  JSON the reply carried. As the endpoint documents it, it is an object whose fields, when
  present, are strings: \<^verbatim>\<open>{error}\<close> or
  \<^verbatim>\<open>{access_token, token_type, scope}\<close>. An absent field reads as
  \<^verbatim>\<open>undefined\<close> (\<open>None\<close>). A condition \<^verbatim>\<open>if (field)\<close> holds for a
  string that is not empty.
\<close>

record token_data =
  error :: "string option"
  access_token :: "string option"
  token_type :: "string option"
  scope :: "string option"

fun truthy :: "string option \<Rightarrow> bool" where
  "truthy None = False"
| "truthy (Some s) = (s \<noteq> [])"

text \<open>
  A body can also be \<^verbatim>\<open>null\<close> (the JSON text \<^verbatim>\<open>null\<close>) or
  \<^verbatim>\<open>undefined\<close>. Reading a property of either throws a \<^verbatim>\<open>TypeError\<close>;
  the messages below are those of Node's engine. A body that is a string, a number, a
  boolean or an array has neither field: it reads like an object with no field.
\<close>

datatype body =
    Null
  | Undefined
  | Fields token_data

definition cannot_read :: "string \<Rightarrow> exn" where
  "cannot_read what = Error (''Cannot read properties of '' @ what @ '' (reading 'error')'')"

text \<open>One HTTP call either throws or returns the reply's body.\<close>

type_synonym reply = "exn + body"

subsection \<open>One run of the \<open>poll\<close> closure\<close>

text \<open>
  What one run of \<^verbatim>\<open>poll\<close> does after its POST: it calls
  \<^verbatim>\<open>setTimeout(poll, delay)\<close> with a delay in milliseconds, or it resolves the
  promise with the reply's body, or it rejects it. \<open>interval\<close> is the parameter of
  \<^verbatim>\<open>pollForAccessToken\<close>, in seconds, which the closure reads and never assigns.
  In the source it is a double; here it is a whole number, as the device-code endpoint
  gives it, and on whole numbers of this size the arithmetic of JavaScript's numbers is
  exact. Fractional intervals and intervals beyond that size are outside the model.
\<close>

datatype poll_action =
    SetTimeout int
  | Resolve token_data
  | Reject exn

text \<open>
  The whole of the closure is inside \<^verbatim>\<open>try\<close>: what the POST throws, and the
  \<^verbatim>\<open>TypeError\<close> of \<^verbatim>\<open>data.error\<close> on a body that is
  \<^verbatim>\<open>null\<close> or \<^verbatim>\<open>undefined\<close>, reach
  \<^verbatim>\<open>catch (error) { reject(error) }\<close>.
\<close>

definition poll :: "int \<Rightarrow> reply \<Rightarrow> poll_action" where
  "poll interval r =
     (case r of
        Inl e \<Rightarrow> Reject e
      | Inr Null \<Rightarrow> Reject (cannot_read ''null'')
      | Inr Undefined \<Rightarrow> Reject (cannot_read ''undefined'')
      | Inr (Fields data) \<Rightarrow>
          if truthy (error data) then
            if error data = Some ''authorization_pending'' then SetTimeout (interval * 1000)
            else if error data = Some ''slow_down'' then SetTimeout ((interval + 5) * 1000)
            else if error data = Some ''expired_token''
              then Reject (Error ''Device code expired. Please try again.'')
            else if error data = Some ''access_denied''
              then Reject (Error ''Access denied by user.'')
            else Reject (Error (''OAuth error: '' @ the (error data)))
          else if truthy (access_token data) then Resolve data
          else SetTimeout (interval * 1000))"

subsection \<open>The polling attempt\<close>

text \<open>
  An attempt is run against the replies the token endpoint gives to the successive POSTs.
  It produces the sequence of its effects (each POST that got its reply, each timer it
  sets) and the state of the promise: resolved, rejected, or still pending when the
  replies given so far are used up. Polling may go on for ever; the list of replies is
  what bounds a run here.
\<close>

datatype effect =
    Post
  | Wait int

datatype promise =
    Resolved token_data
  | Rejected exn
  | Pending

fun pollForAccessToken :: "int \<Rightarrow> reply list \<Rightarrow> effect list \<times> promise" where
  "pollForAccessToken interval [] = ([], Pending)"
| "pollForAccessToken interval (r # rs) =
     (case poll interval r of
        SetTimeout delay \<Rightarrow>
          (case pollForAccessToken interval rs of
             (effects, p) \<Rightarrow> (Post # Wait delay # effects, p))
      | Resolve data \<Rightarrow> ([Post], Resolved data)
      | Reject e \<Rightarrow> ([Post], Rejected e))"

text \<open>The delays of the timers an attempt sets, in order, and the number of its POSTs.\<close>

fun waits :: "effect list \<Rightarrow> int list" where
  "waits [] = []"
| "waits (Post # es) = waits es"
| "waits (Wait d # es) = d # waits es"

fun posts :: "effect list \<Rightarrow> nat" where
  "posts [] = 0"
| "posts (Post # es) = Suc (posts es)"
| "posts (Wait d # es) = posts es"

text \<open>
  The timing rule in the specification's words: the effective interval starts at
  \<open>interval\<close>; \<^verbatim>\<open>slow_down\<close> adds 5 seconds to it for the wait that follows and
  for every later wait of the attempt; any other reply that keeps the attempt polling waits
  the current effective interval. \<open>waits_spec\<close> lists the delays, in milliseconds, of a
  run over replies that all keep the attempt polling.
\<close>

definition is_slow_down :: "reply \<Rightarrow> bool" where
  "is_slow_down r =
     (case r of Inr (Fields data) \<Rightarrow> error data = Some ''slow_down'' | _ \<Rightarrow> False)"

fun waits_spec :: "int \<Rightarrow> reply list \<Rightarrow> int list" where
  "waits_spec interval [] = []"
| "waits_spec interval (r # rs) =
     (if is_slow_down r
      then ((interval + 5) * 1000) # waits_spec (interval + 5) rs
      else (interval * 1000) # waits_spec interval rs)"

section \<open>Uploading secrets (github)\<close>

subsection \<open>The environment: the REST client and libsodium\<close>

text \<open>
  \<open>GitHubService\<close> talks to two collaborators that are not part of the repository: the
  REST client (\<^verbatim>\<open>octokit.request\<close>) and \<^verbatim>\<open>libsodium-wrappers\<close>. Both are
  parameters of the model. What they answer may depend on a state of the world \<open>'w\<close>
  the program cannot see (the server, the random generator that gives a sealed box its
  ephemeral key), so they are functions on that state. Every call the service makes is
  also written to a log the environment cannot touch; the claims about what is sent and
  what is never sent are statements about this log.
\<close>

type_synonym bytes = "8 word list"

datatype base64_variant = ORIGINAL | ORIGINAL_NO_PADDING | URLSAFE | URLSAFE_NO_PADDING

record PublicKey =
  key_id :: string
  key :: string

text \<open>The parameters of the two requests the upload makes.\<close>

record get_key_request =
  gk_owner :: string
  gk_repo :: string
  gk_api_version :: string

record put_secret_request =
  ps_owner :: string
  ps_repo :: string
  secret_name :: string
  encrypted_value :: string
  ps_key_id :: string
  ps_api_version :: string

datatype call =
    GetPublicKey get_key_request
  | PutSecret put_secret_request
  | SodiumReady
  | FromBase64 string base64_variant
  | FromString string
  | CryptoBoxSeal bytes bytes
  | ToBase64 bytes base64_variant

record 'w state =
  log :: "call list"
  world :: 'w

text \<open>An asynchronous operation: from a state, a thrown value or a result, and the new state.\<close>

type_synonym ('w, 'a) io = "'w state \<Rightarrow> (exn + 'a) \<times> 'w state"

record 'w env =
  get_public_key :: "get_key_request \<Rightarrow> 'w \<Rightarrow> (exn + PublicKey) \<times> 'w"
  put_secret :: "put_secret_request \<Rightarrow> 'w \<Rightarrow> (exn + unit) \<times> 'w"
  sodium_ready :: "'w \<Rightarrow> (exn + unit) \<times> 'w"
  from_base64 :: "string \<Rightarrow> base64_variant \<Rightarrow> exn + bytes"
  from_string :: "string \<Rightarrow> bytes"
  crypto_box_seal :: "bytes \<Rightarrow> bytes \<Rightarrow> 'w \<Rightarrow> (exn + bytes) \<times> 'w"
  to_base64 :: "bytes \<Rightarrow> base64_variant \<Rightarrow> string"

definition return :: "'a \<Rightarrow> ('w, 'a) io" where
  "return x = (\<lambda>s. (Inr x, s))"

text \<open>
  \<open>step m k\<close>: the statement \<open>m\<close> (awaited, when it is asynchronous), then the
  rest \<open>k\<close> of the function body with the statement's value. If \<open>m\<close> throws, the body
  is left with what was thrown, as no statement of the service is inside a
  \<^verbatim>\<open>try\<close> but the call in the batch loop.
\<close>

definition step :: "('w, 'a) io \<Rightarrow> ('a \<Rightarrow> ('w, 'b) io) \<Rightarrow> ('w, 'b) io" where
  "step m k = (\<lambda>s. case m s of (Inl e, s') \<Rightarrow> (Inl e, s') | (Inr x, s') \<Rightarrow> k x s')"

text \<open>
  \<open>perform c f\<close>: a call to the environment. The call is logged, then the environment
  answers from the state of the world.
\<close>

definition perform :: "call \<Rightarrow> ('w \<Rightarrow> (exn + 'a) \<times> 'w) \<Rightarrow> ('w, 'a) io" where
  "perform c f =
     (\<lambda>s. case f (world s) of (r, w') \<Rightarrow> (r, \<lparr>log = log s @ [c], world = w'\<rparr>))"

text \<open>A library function that does not read the state of the world.\<close>

definition pure_call :: "exn + 'a \<Rightarrow> 'w \<Rightarrow> (exn + 'a) \<times> 'w" where
  "pure_call r = (\<lambda>w. (r, w))"

subsection \<open>The service\<close>

definition apiVersion :: string where
  "apiVersion = ''2022-11-28''"

definition getRepoPublicKey :: "'w env \<Rightarrow> string \<Rightarrow> string \<Rightarrow> ('w, PublicKey) io" where
  "getRepoPublicKey env owner repo =
     (let req = \<lparr>gk_owner = owner, gk_repo = repo, gk_api_version = apiVersion\<rparr>
      in perform (GetPublicKey req) (get_public_key env req))"

definition encryptSecret :: "'w env \<Rightarrow> string \<Rightarrow> string \<Rightarrow> ('w, string) io" where
  "encryptSecret env secretValue publicKey =
     step (perform SodiumReady (sodium_ready env)) (\<lambda>_.
     step (perform (FromBase64 publicKey ORIGINAL)
              (pure_call (from_base64 env publicKey ORIGINAL))) (\<lambda>binkey.
     step (perform (FromString secretValue)
              (pure_call (Inr (from_string env secretValue)))) (\<lambda>binsec.
     step (perform (CryptoBoxSeal binsec binkey) (crypto_box_seal env binsec binkey)) (\<lambda>encBytes.
     perform (ToBase64 encBytes ORIGINAL) (pure_call (Inr (to_base64 env encBytes ORIGINAL)))))))"

definition createOrUpdateRepoSecret ::
  "'w env \<Rightarrow> string \<Rightarrow> string \<Rightarrow> string \<Rightarrow> string \<Rightarrow> ('w, unit) io" where
  "createOrUpdateRepoSecret env owner repo secretName secretValue =
     step (getRepoPublicKey env owner repo) (\<lambda>publicKeyData.
     step (encryptSecret env secretValue (key publicKeyData)) (\<lambda>encryptedValue.
     (let req = \<lparr>ps_owner = owner, ps_repo = repo, secret_name = secretName,
                  encrypted_value = encryptedValue, ps_key_id = key_id publicKeyData,
                  ps_api_version = apiVersion\<rparr>
      in perform (PutSecret req) (put_secret env req))))"

subsection \<open>The batch upload\<close>

record failure =
  failed_name :: string
  failed_error :: string

record batch_result =
  success :: "string list"
  failed :: "failure list"

text \<open>\<^verbatim>\<open>error instanceof Error ? error.message : String(error)\<close>\<close>

fun error_text :: "exn \<Rightarrow> string" where
  "error_text (Error m) = m"
| "error_text (Thrown t) = t"

text \<open>
  The \<^verbatim>\<open>for ... of Object.entries(secrets)\<close> loop with its \<^verbatim>\<open>try/catch\<close>: the
  two arrays are the accumulators.
\<close>

fun batch_loop ::
  "'w env \<Rightarrow> string \<Rightarrow> string \<Rightarrow> (string \<times> string) list \<Rightarrow> string list \<Rightarrow> failure list \<Rightarrow>
   'w state \<Rightarrow> batch_result \<times> 'w state" where
  "batch_loop env owner repo [] success' failed' s =
     (\<lparr>success = success', failed = failed'\<rparr>, s)"
| "batch_loop env owner repo ((nm, val) # rest) success' failed' s =
     (case createOrUpdateRepoSecret env owner repo nm val s of
        (Inr u, s') \<Rightarrow> batch_loop env owner repo rest (success' @ [nm]) failed' s'
      | (Inl e, s') \<Rightarrow>
          batch_loop env owner repo rest success'
            (failed' @ [\<lparr>failed_name = nm, failed_error = error_text e\<rparr>]) s')"

definition batchCreateSecrets ::
  "'w env \<Rightarrow> string \<Rightarrow> string \<Rightarrow> js_record \<Rightarrow> ('w, batch_result) io" where
  "batchCreateSecrets env owner repo secrets =
     (\<lambda>s. case batch_loop env owner repo secrets [] [] s of (r, s') \<Rightarrow> (Inr r, s'))"

text \<open>
  The attempts of a batch, one by one: each entry's name with what its upload returned or
  threw, each run from the state the one before left.
\<close>

fun attempts ::
  "'w env \<Rightarrow> string \<Rightarrow> string \<Rightarrow> (string \<times> string) list \<Rightarrow> 'w state \<Rightarrow>
   (string \<times> (exn + unit)) list \<times> 'w state" where
  "attempts env owner repo [] s = ([], s)"
| "attempts env owner repo ((nm, val) # rest) s =
     (case createOrUpdateRepoSecret env owner repo nm val s of
        (r, s') \<Rightarrow>
          (case attempts env owner repo rest s' of
             (rs, s'') \<Rightarrow> ((nm, r) # rs, s'')))"

text \<open>The requests of a log: the PUTs of secrets and the fetches of the public key.\<close>

fun puts :: "call list \<Rightarrow> put_secret_request list" where
  "puts [] = []"
| "puts (PutSecret req # cs) = req # puts cs"
| "puts (c # cs) = puts cs"

fun key_fetches :: "call list \<Rightarrow> get_key_request list" where
  "key_fetches [] = []"
| "key_fetches (GetPublicKey req # cs) = req # key_fetches cs"
| "key_fetches (c # cs) = key_fetches cs"

fun seals :: "call list \<Rightarrow> (bytes \<times> bytes) list" where
  "seals [] = []"
| "seals (CryptoBoxSeal m k # cs) = (m, k) # seals cs"
| "seals (c # cs) = seals cs"

text \<open>
  The two result lists read off the attempts: the names whose upload returned, and the
  names whose upload threw. A name whose upload threw is paired with the message of the
  \<^verbatim>\<open>Error\<close> thrown, or, for a thrown value that is no \<^verbatim>\<open>Error\<close>, with
  that value as a string.
\<close>

fun succeeded :: "(string \<times> (exn + unit)) list \<Rightarrow> string list" where
  "succeeded [] = []"
| "succeeded ((nm, Inr u) # rs) = nm # succeeded rs"
| "succeeded ((nm, Inl e) # rs) = succeeded rs"

fun failures :: "(string \<times> (exn + unit)) list \<Rightarrow> failure list" where
  "failures [] = []"
| "failures ((nm, Inr u) # rs) = failures rs"
| "failures ((nm, Inl (Error m)) # rs) = \<lparr>failed_name = nm, failed_error = m\<rparr> # failures rs"
| "failures ((nm, Inl (Thrown t)) # rs) = \<lparr>failed_name = nm, failed_error = t\<rparr> # failures rs"

subsection \<open>A test double of the environment\<close>

text \<open>
  An environment to run the service on concrete inputs. The state of the world is a
  counter. The repository \<^verbatim>\<open>gone\<close> has no public key (the request throws); every other
  repository answers with a key (one that does not decode for the repository
  \<^verbatim>\<open>badkey\<close>). A secret named
  \<^verbatim>\<open>LOCKED\<close> is refused by the PUT with an \<^verbatim>\<open>Error\<close>, and for one named
  \<^verbatim>\<open>ODD\<close> the PUT throws a value that is no \<^verbatim>\<open>Error\<close>. Only the key \<^verbatim>\<open>QUJD\<close> decodes. A sealed box
  starts with a byte taken from the counter, so that sealing the same bytes twice gives
  different boxes.
\<close>

definition stub_env :: "nat env" where
  "stub_env =
     \<lparr>get_public_key =
        (\<lambda>req w. (if gk_repo req = ''gone'' then Inl (Error ''Not Found'')
                   else Inr \<lparr>key_id = ''k1'',
                             key = (if gk_repo req = ''badkey'' then ''%%%'' else ''QUJD'')\<rparr>,
                   Suc w)),
      put_secret =
        (\<lambda>req w. (if secret_name req = ''LOCKED''
                     then Inl (Error ''Resource not accessible by integration'')
                   else if secret_name req = ''ODD'' then Inl (Thrown ''403'')
                   else Inr (),
                   Suc w)),
      sodium_ready = (\<lambda>w. (Inr (), w)),
      from_base64 =
        (\<lambda>text variant. if text = ''QUJD'' then Inr [65, 66, 67] else Inl (Error ''invalid input'')),
      from_string = map (\<lambda>c. of_nat (of_char c)),
      crypto_box_seal = (\<lambda>m k w. (Inr (of_nat (97 + w) # k @ m), Suc w)),
      to_base64 = (\<lambda>b variant. map (\<lambda>x. char_of (unat x)) b)\<rparr>"

definition start :: "nat state" where
  "start = \<lparr>log = [], world = 0\<rparr>"

section \<open>Properties of the name validation\<close>

lemma of_char_underscore: "((of_char c :: nat) = 95) = (c = CHR ''_'')"
proof -
  have "(of_char (CHR ''_'') :: nat) = 95" by simp
  then show ?thesis by (metis of_char_eq_iff)
qed

lemma in_name_head: "in_class name_head c = (is_letter c \<or> c = CHR ''_'')"
  by (auto simp: name_head_def is_letter_def of_char_underscore)

lemma in_name_tail: "in_class name_tail c = (is_letter c \<or> is_digit c \<or> c = CHR ''_'')"
  by (auto simp: name_tail_def is_letter_def is_digit_def of_char_underscore)

lemma matches_many_end: "matches [ManyOf cls] s = list_all (in_class cls) s"
  by (induction s) auto

lemma not_ahead_prefix: "(take (length lit) s \<noteq> lit) = (\<not> prefix lit s)"
  by (metis prefix_def append_eq_conv_conj append_take_drop_id)

lemma matches_identifier:
  "matches [OneOf name_head, ManyOf name_tail] name = identifier_spec name"
proof -
  have tl: "list_all (in_class name_tail) cs =
            list_all (\<lambda>d. is_letter d \<or> is_digit d \<or> d = CHR ''_'') cs" for cs
    by (induction cs) (simp_all add: in_name_tail del: in_class.simps)
  show ?thesis
    by (cases name)
       (simp_all add: identifier_spec_def matches_many_end in_name_head tl del: in_class.simps)
qed

lemmas validate_eval = validateSecretName_def pattern_def name_head_def name_tail_def

text \<open>
  Claim C8. \<open>validateSecretName\<close> is a total predicate that holds of a name exactly when
  the name matches \<^verbatim>\<open>^[A-Za-z_][A-Za-z0-9_]*$\<close> and does not start with the prefix
  \<^verbatim>\<open>GITHUB_\<close> (compared case-sensitively); it is false for
  \<^verbatim>\<open>GITHUB_FOO\<close>, \<^verbatim>\<open>1ABC\<close> and \<^verbatim>\<open>bad-name\<close>.
\<close>

theorem validateSecretName_iff_spec:
  "validateSecretName name = isValidName_spec name \<and>
   \<not> validateSecretName ''GITHUB_FOO'' \<and>
   \<not> validateSecretName ''1ABC'' \<and>
   \<not> validateSecretName ''bad-name''"
proof -
  have "validateSecretName name = isValidName_spec name"
    using matches_identifier [of name]
    unfolding validateSecretName_def pattern_def isValidName_spec_def
    by (simp only: matches.simps not_ahead_prefix) blast
  moreover have "\<not> validateSecretName ''GITHUB_FOO''"
    by (simp add: validate_eval)
  moreover have "\<not> validateSecretName ''1ABC''"
    by (simp add: validate_eval)
  moreover have "\<not> validateSecretName ''bad-name''"
    by (simp add: validate_eval)
  ultimately show ?thesis by blast
qed

theorem validateSecretName_iff_spec_witness:
  "validateSecretName ''MY_SECRET_1'' \<and> isValidName_spec ''MY_SECRET_1'' \<and>
   validateSecretName ''github_'' \<and>
   \<not> isValidName_spec ''GITHUB_TOKEN''"
proof -
  have a: "validateSecretName ''MY_SECRET_1''" by (simp add: validate_eval)
  have b: "validateSecretName ''github_''" by (simp add: validate_eval)
  have c: "\<not> validateSecretName ''GITHUB_TOKEN''" by (simp add: validate_eval)
  show ?thesis
    using a b c
      validateSecretName_iff_spec [of "''MY_SECRET_1''"]
      validateSecretName_iff_spec [of "''GITHUB_TOKEN''"]
    by simp
qed

section \<open>Properties of \<open>filterValidSecrets\<close>\<close>

lemma assign_fresh: "k \<notin> fst ` set obj \<Longrightarrow> assign k v obj = obj @ [(k, v)]"
  by (induction obj) auto

lemma obj_set_fresh:
  "k \<noteq> ''__proto__'' \<Longrightarrow> k \<notin> fst ` set obj \<Longrightarrow> obj_set obj k v = obj @ [(k, v)]"
  by (simp add: obj_set_def assign_fresh)

lemma filter_loop_partition:
  "distinct (map fst (acc @ rest)) \<Longrightarrow> ''__proto__'' \<notin> fst ` set rest \<Longrightarrow>
   filter_loop rest acc bad =
     \<lparr>valid = acc @ filter (\<lambda>(n, v). validateSecretName n) rest,
      invalid = bad @ filter (\<lambda>n. \<not> validateSecretName n) (map fst rest)\<rparr>"
proof (induction rest arbitrary: acc bad)
  case Nil
  then show ?case by simp
next
  case (Cons p rest)
  obtain n v where p: "p = (n, v)" by (cases p)
  from Cons.prems p have fresh: "n \<notin> fst ` set acc" and np: "n \<noteq> ''__proto__''"
    by auto
  show ?case
  proof (cases "validateSecretName n")
    case True
    have d: "distinct (map fst ((acc @ [(n, v)]) @ rest))"
      using Cons.prems(1) p by simp
    have q: "''__proto__'' \<notin> fst ` set rest"
      using Cons.prems(2) by simp
    show ?thesis
      using True Cons.IH [OF d q, of bad] p
      by (simp add: obj_set_fresh [OF np fresh])
  next
    case False
    have d: "distinct (map fst (acc @ rest))"
      using Cons.prems(1) p by simp
    have q: "''__proto__'' \<notin> fst ` set rest"
      using Cons.prems(2) by simp
    show ?thesis
      using False Cons.IH [OF d q, of "bad @ [n]"] p
      by simp
  qed
qed

text \<open>
  Away from the key \<^verbatim>\<open>__proto__\<close> the partition is as the specification has it:
  the entries with a valid name, values unchanged, and the other names in input order.
\<close>

lemma filterValidSecrets_partition:
  assumes "distinct (map fst secrets)" and "''__proto__'' \<notin> fst ` set secrets"
  shows "filterValidSecrets secrets =
           \<lparr>valid = filter (\<lambda>(n, v). validateSecretName n) secrets,
            invalid = filter (\<lambda>n. \<not> validateSecretName n) (map fst secrets)\<rparr>"
  using filter_loop_partition [of "[]" secrets "[]"] assms
  by (simp add: filterValidSecrets_def)

lemma filterValidSecrets_example:
  "filterValidSecrets [(''GOOD'', ''1''), (''GITHUB_BAD'', ''2''), (''1BAD'', ''3'')] =
     \<lparr>valid = [(''GOOD'', ''1'')], invalid = [''GITHUB_BAD'', ''1BAD'']\<rparr>"
  by (simp add: filterValidSecrets_def obj_set_def validate_eval)

text \<open>
  Claim C9 says that no entry is dropped: every input name is in the valid result or in
  the invalid list. The name \<^verbatim>\<open>__proto__\<close> passes \<open>validateSecretName\<close>, and the
  assignment \<^verbatim>\<open>valid[name] = value\<close> then stores nothing: an input whose one own
  property is \<^verbatim>\<open>__proto__\<close> comes back with both results empty.
\<close>

theorem filterValidSecrets_drops_proto:
  "validateSecretName ''__proto__'' \<and>
   filterValidSecrets [(''__proto__'', ''x'')] = \<lparr>valid = [], invalid = []\<rparr>"
  by (simp add: filterValidSecrets_def obj_set_def validate_eval)

section \<open>Properties of the polling attempt\<close>

text \<open>
  While the promise is pending after some replies, the attempt goes on with the replies
  that follow: its effects and its outcome are those of the later replies, after the
  effects so far.
\<close>

lemma pollForAccessToken_append:
  "pollForAccessToken interval earlier = (effects, Pending) \<Longrightarrow>
   pollForAccessToken interval (earlier @ later) =
     (effects @ fst (pollForAccessToken interval later),
      snd (pollForAccessToken interval later))"
proof (induction earlier arbitrary: effects)
  case Nil
  then show ?case by simp
next
  case (Cons r earlier)
  show ?case
  proof (cases "poll interval r")
    case (SetTimeout delay)
    obtain es p where rest: "pollForAccessToken interval earlier = (es, p)"
      by (cases "pollForAccessToken interval earlier")
    with Cons.prems SetTimeout have "p = Pending" and eff: "effects = Post # Wait delay # es"
      by auto
    with rest Cons.IH [of es] SetTimeout show ?thesis
      by simp
  next
    case (Resolve data)
    with Cons.prems show ?thesis by simp
  next
    case (Reject e)
    with Cons.prems show ?thesis by simp
  qed
qed

lemma poll_pending:
  "error data = Some ''authorization_pending'' \<Longrightarrow>
   poll interval (Inr (Fields data)) = SetTimeout (interval * 1000)"
  by (simp add: poll_def)

lemma poll_slow_down:
  "error data = Some ''slow_down'' \<Longrightarrow>
   poll interval (Inr (Fields data)) = SetTimeout ((interval + 5) * 1000)"
  by (simp add: poll_def)

text \<open>
  The scenario of the specification: pending, then slow down, then a token. The client
  waits \<open>interval\<close>, then \<open>interval + 5\<close> seconds, then resolves with the token.
\<close>

lemma pollForAccessToken_scenario:
  "pollForAccessToken interval
     [Inr (Fields \<lparr>error = Some ''authorization_pending'', access_token = None, token_type = None,
           scope = None\<rparr>),
      Inr (Fields \<lparr>error = Some ''slow_down'', access_token = None, token_type = None, scope = None\<rparr>),
      Inr (Fields \<lparr>error = None, access_token = Some ''tok'', token_type = None,
           scope = Some ''repo''\<rparr>)] =
     ([Post, Wait (interval * 1000), Post, Wait ((interval + 5) * 1000), Post],
      Resolved \<lparr>error = None, access_token = Some ''tok'', token_type = None,
                scope = Some ''repo''\<rparr>)"
  by (simp add: poll_def)

text \<open>
  Every wait of an attempt is \<open>interval\<close> or \<open>interval + 5\<close> seconds, whatever came
  before it: the closure never changes \<open>interval\<close>.
\<close>

lemma waits_two_values:
  "d \<in> set (waits (fst (pollForAccessToken interval replies))) \<Longrightarrow>
   d = interval * 1000 \<or> d = (interval + 5) * 1000"
proof (induction replies)
  case Nil
  then show ?case by simp
next
  case (Cons r replies)
  show ?case
  proof (cases "poll interval r")
    case (SetTimeout delay)
    have "delay = interval * 1000 \<or> delay = (interval + 5) * 1000"
      using SetTimeout by (auto simp: poll_def split: sum.splits body.splits if_splits)
    with Cons SetTimeout show ?thesis
      by (auto split: prod.splits)
  next
    case (Resolve data)
    with Cons.prems show ?thesis by simp
  next
    case (Reject e)
    with Cons.prems show ?thesis by simp
  qed
qed

text \<open>
  Claim C2 says that after \<^verbatim>\<open>slow_down\<close> the increase of 5 seconds holds for every
  later wait of the attempt. With an interval of 5 seconds and the replies
  \<^verbatim>\<open>slow_down\<close>, \<^verbatim>\<open>authorization_pending\<close>, token, the code waits 10 seconds
  and then 5 seconds again, where the rule of the specification gives 10 and 10.
\<close>

theorem slow_down_increase_is_lost:
  "pollForAccessToken 5
     [Inr (Fields \<lparr>error = Some ''slow_down'', access_token = None, token_type = None, scope = None\<rparr>),
      Inr (Fields \<lparr>error = Some ''authorization_pending'', access_token = None, token_type = None,
           scope = None\<rparr>),
      Inr (Fields \<lparr>error = None, access_token = Some ''tok'', token_type = Some ''bearer'',
           scope = Some ''repo''\<rparr>)] =
     ([Post, Wait 10000, Post, Wait 5000, Post],
      Resolved \<lparr>error = None, access_token = Some ''tok'', token_type = Some ''bearer'',
                scope = Some ''repo''\<rparr>) \<and>
   waits_spec 5
     [Inr (Fields \<lparr>error = Some ''slow_down'', access_token = None, token_type = None, scope = None\<rparr>),
      Inr (Fields \<lparr>error = Some ''authorization_pending'', access_token = None, token_type = None,
           scope = None\<rparr>)] = [10000, 10000]"
  by (simp add: poll_def is_slow_down_def)

text \<open>
  Claim C3. While an attempt is polling, a reply whose error field is not empty and is
  neither \<^verbatim>\<open>authorization_pending\<close> nor \<^verbatim>\<open>slow_down\<close> ends it: the promise is
  rejected, with the device-code-expired error for \<^verbatim>\<open>expired_token\<close>, the
  access-denied error for \<^verbatim>\<open>access_denied\<close>, and an error that carries the raw code
  for any other code. The POST that got this reply is the attempt's last effect: no timer
  is set and no later reply is asked for.
\<close>

theorem terminal_error_rejects:
  assumes "pollForAccessToken interval earlier = (effects, Pending)"
    and "error data = Some code" and "code \<noteq> []"
    and "code \<noteq> ''authorization_pending''" and "code \<noteq> ''slow_down''"
  shows "pollForAccessToken interval (earlier @ Inr (Fields data) # later) =
           (effects @ [Post],
            Rejected (Error
              (if code = ''expired_token'' then ''Device code expired. Please try again.''
               else if code = ''access_denied'' then ''Access denied by user.''
               else ''OAuth error: '' @ code)))"
proof -
  have "poll interval (Inr (Fields data)) =
          Reject (Error
            (if code = ''expired_token'' then ''Device code expired. Please try again.''
             else if code = ''access_denied'' then ''Access denied by user.''
             else ''OAuth error: '' @ code))"
    using assms(2-5) by (simp add: poll_def)
  then show ?thesis
    using pollForAccessToken_append [OF assms(1), of "Inr (Fields data) # later"] by simp
qed

theorem terminal_error_rejects_witness:
  "pollForAccessToken 5
     [Inr (Fields \<lparr>error = Some ''authorization_pending'', access_token = None, token_type = None,
           scope = None\<rparr>),
      Inr (Fields \<lparr>error = Some ''expired_token'', access_token = None, token_type = None,
           scope = None\<rparr>),
      Inr (Fields \<lparr>error = None, access_token = Some ''tok'', token_type = None, scope = None\<rparr>)] =
     ([Post, Wait 5000, Post], Rejected (Error ''Device code expired. Please try again.'')) \<and>
   pollForAccessToken 5
     [Inr (Fields \<lparr>error = Some ''access_denied'', access_token = None, token_type = None,
           scope = None\<rparr>)] =
     ([Post], Rejected (Error ''Access denied by user.'')) \<and>
   pollForAccessToken 5
     [Inr (Fields \<lparr>error = Some ''unsupported_grant_type'', access_token = None, token_type = None,
           scope = None\<rparr>)] =
     ([Post], Rejected (Error ''OAuth error: unsupported_grant_type''))"
proof -
  have p: "pollForAccessToken 5
     [Inr (Fields \<lparr>error = Some ''authorization_pending'', access_token = None, token_type = None,
           scope = None\<rparr>)] = ([Post, Wait 5000], Pending)"
    by (simp add: poll_def)
  have n: "pollForAccessToken 5 [] = ([], Pending)"
    by simp
  show ?thesis
    using
      terminal_error_rejects [OF p, of
        "\<lparr>error = Some ''expired_token'', access_token = None, token_type = None, scope = None\<rparr>"
        "''expired_token''"
        "[Inr (Fields \<lparr>error = None, access_token = Some ''tok'', token_type = None, scope = None\<rparr>)]"]
      terminal_error_rejects [OF n, of
        "\<lparr>error = Some ''access_denied'', access_token = None, token_type = None, scope = None\<rparr>"
        "''access_denied''" "[]"]
      terminal_error_rejects [OF n, of
        "\<lparr>error = Some ''unsupported_grant_type'', access_token = None, token_type = None,
          scope = None\<rparr>"
        "''unsupported_grant_type''" "[]"]
    by simp
qed

text \<open>
  While an attempt is polling, a reply whose body is an object with neither a non-empty
  error field nor a non-empty access token does not reject the promise: the closure sets
  a timer of \<open>interval\<close> seconds and polls again, and the attempt's outcome is the outcome
  of the replies that follow (still pending when there is none yet).
\<close>

lemma object_body_keeps_polling:
  assumes "pollForAccessToken interval earlier = (effects, Pending)"
    and "\<not> truthy (error data)" and "\<not> truthy (access_token data)"
  shows "poll interval (Inr (Fields data)) = SetTimeout (interval * 1000) \<and>
         pollForAccessToken interval (earlier @ [Inr (Fields data)]) =
           (effects @ [Post, Wait (interval * 1000)], Pending) \<and>
         pollForAccessToken interval (earlier @ Inr (Fields data) # later) =
           (effects @ Post # Wait (interval * 1000) # fst (pollForAccessToken interval later),
            snd (pollForAccessToken interval later))"
proof -
  have step: "poll interval (Inr (Fields data)) = SetTimeout (interval * 1000)"
    using assms(2,3) by (simp add: poll_def)
  have "pollForAccessToken interval (earlier @ Inr (Fields data) # more) =
          (effects @ Post # Wait (interval * 1000) # fst (pollForAccessToken interval more),
           snd (pollForAccessToken interval more))" for more
    using pollForAccessToken_append [OF assms(1), of "Inr (Fields data) # more"] step
    by (simp split: prod.splits)
  from this [of "[]"] this [of later] step show ?thesis
    by simp
qed

lemma object_body_keeps_polling_example:
  "pollForAccessToken 5
     [Inr (Fields \<lparr>error = Some ''authorization_pending'', access_token = None,
                   token_type = None, scope = None\<rparr>),
      Inr (Fields \<lparr>error = Some [], access_token = None, token_type = None,
                   scope = Some ''repo''\<rparr>),
      Inr (Fields \<lparr>error = None, access_token = Some ''tok'', token_type = None,
                   scope = None\<rparr>)] =
     ([Post, Wait 5000, Post, Wait 5000, Post],
      Resolved \<lparr>error = None, access_token = Some ''tok'', token_type = None, scope = None\<rparr>)"
  by (simp add: poll_def)

text \<open>
  Claim C4 says that a reply with neither a non-empty error field nor a non-empty access
  token never fails the attempt, and that the next poll comes after the current effective
  interval. A reply whose body is \<^verbatim>\<open>null\<close> has neither field, and the code rejects
  the promise: \<^verbatim>\<open>data.error\<close> throws a \<^verbatim>\<open>TypeError\<close>, which the
  \<^verbatim>\<open>catch\<close> passes to \<^verbatim>\<open>reject\<close>; no timer is set. And after a
  \<^verbatim>\<open>slow_down\<close>, a reply that is an object with no field is followed by a wait of the
  initial 5 seconds, where the effective interval of the specification is 10 seconds.
\<close>

theorem null_body_rejects:
  "pollForAccessToken 5 [Inr Null] =
     ([Post], Rejected (Error ''Cannot read properties of null (reading 'error')'')) \<and>
   pollForAccessToken 5
     [Inr (Fields \<lparr>error = Some ''slow_down'', access_token = None, token_type = None,
                   scope = None\<rparr>),
      Inr (Fields \<lparr>error = None, access_token = None, token_type = None, scope = None\<rparr>)] =
     ([Post, Wait 10000, Post, Wait 5000], Pending) \<and>
   waits_spec 5
     [Inr (Fields \<lparr>error = Some ''slow_down'', access_token = None, token_type = None,
                   scope = None\<rparr>),
      Inr (Fields \<lparr>error = None, access_token = None, token_type = None, scope = None\<rparr>)] =
     [10000, 10000]"
  by (simp add: poll_def cannot_read_def is_slow_down_def)

text \<open>
  Claim C5. While an attempt is polling, a POST that throws ends it at once: the promise
  is rejected with the very value thrown, the POST is the last effect (no timer is set),
  and no later reply is asked for.
\<close>

theorem transport_error_rejects:
  assumes "pollForAccessToken interval earlier = (effects, Pending)"
  shows "poll interval (Inl e) = Reject e \<and>
         pollForAccessToken interval (earlier @ Inl e # later) = (effects @ [Post], Rejected e)"
proof -
  have step: "poll interval (Inl e) = Reject e"
    by (simp add: poll_def)
  then show ?thesis
    using pollForAccessToken_append [OF assms, of "Inl e # later"] by simp
qed

theorem transport_error_rejects_witness:
  "pollForAccessToken 5
     [Inr (Fields \<lparr>error = Some ''authorization_pending'', access_token = None, token_type = None,
           scope = None\<rparr>),
      Inl (Error ''connect ECONNREFUSED''),
      Inr (Fields \<lparr>error = None, access_token = Some ''tok'', token_type = None, scope = None\<rparr>)] =
     ([Post, Wait 5000, Post], Rejected (Error ''connect ECONNREFUSED''))"
proof -
  have p: "pollForAccessToken 5
     [Inr (Fields \<lparr>error = Some ''authorization_pending'', access_token = None, token_type = None,
           scope = None\<rparr>)] = ([Post, Wait 5000], Pending)"
    by (simp add: poll_def)
  show ?thesis
    using transport_error_rejects [OF p, of "Error ''connect ECONNREFUSED''"
        "[Inr (Fields \<lparr>error = None, access_token = Some ''tok'', token_type = None, scope = None\<rparr>)]"]
    by simp
qed

text \<open>
  Claim C6. The error field is looked at first. Two replies with the same non-empty error
  field are treated alike whatever their other fields hold, so an access token beside an
  error is ignored; and a reply resolves the promise exactly when its access token is not
  empty and it has no (non-empty) error, the promise then holding the reply's body. A
  body that is \<^verbatim>\<open>null\<close> or \<^verbatim>\<open>undefined\<close> never resolves it.
\<close>

theorem error_field_first:
  "(truthy (error d1) \<and> error d2 = error d1 \<longrightarrow>
      poll interval (Inr (Fields d1)) = poll interval (Inr (Fields d2)) \<and>
      (\<forall>d. poll interval (Inr (Fields d1)) \<noteq> Resolve d)) \<and>
   (poll interval (Inr (Fields data)) = Resolve data') =
      (data' = data \<and> truthy (access_token data) \<and> \<not> truthy (error data)) \<and>
   poll interval (Inr Null) \<noteq> Resolve data' \<and>
   poll interval (Inr Undefined) \<noteq> Resolve data'"
  by (auto simp: poll_def cannot_read_def)

theorem error_field_first_witness:
  "poll 5 (Inr (Fields \<lparr>error = Some ''access_denied'', access_token = Some ''tok'',
                 token_type = None, scope = None\<rparr>)) =
     Reject (Error ''Access denied by user.'') \<and>
   poll 5 (Inr (Fields \<lparr>error = None, access_token = Some ''tok'', token_type = None,
                 scope = None\<rparr>)) =
     Resolve \<lparr>error = None, access_token = Some ''tok'', token_type = None, scope = None\<rparr>"
proof -
  have a: "poll 5 (Inr (Fields \<lparr>error = Some ''access_denied'', access_token = None,
                         token_type = None, scope = None\<rparr>)) =
             Reject (Error ''Access denied by user.'')"
    by (simp add: poll_def)
  show ?thesis
    using a
      error_field_first [of
        "\<lparr>error = Some ''access_denied'', access_token = Some ''tok'', token_type = None,
          scope = None\<rparr>"
        "\<lparr>error = Some ''access_denied'', access_token = None, token_type = None,
          scope = None\<rparr>"
        5
        "\<lparr>error = None, access_token = Some ''tok'', token_type = None, scope = None\<rparr>"
        "\<lparr>error = None, access_token = Some ''tok'', token_type = None, scope = None\<rparr>"]
    by simp
qed

section \<open>Properties of the upload\<close>

subsection \<open>Logs\<close>


lemma key_fetches_append: "key_fetches (xs @ ys) = key_fetches xs @ key_fetches ys"
  by (induction xs rule: key_fetches.induct) simp_all

lemma seals_append: "seals (xs @ ys) = seals xs @ seals ys"
  by (induction xs rule: seals.induct) simp_all

subsection \<open>What \<open>encryptSecret\<close> computes\<close>

text \<open>
  \<open>encryption env secretValue publicKey s\<close> spells out the run of \<open>encryptSecret\<close>
  from the state \<open>s\<close>: the result and the calls made, in order.
\<close>

lemma encryptSecret_run:
  "encryptSecret env secretValue publicKey s =
     (case sodium_ready env (world s) of
        (Inl e, w1) \<Rightarrow> (Inl e, \<lparr>log = log s @ [SodiumReady], world = w1\<rparr>)
      | (Inr u, w1) \<Rightarrow>
          (case from_base64 env publicKey ORIGINAL of
             Inl e \<Rightarrow>
               (Inl e, \<lparr>log = log s @ [SodiumReady, FromBase64 publicKey ORIGINAL], world = w1\<rparr>)
           | Inr binkey \<Rightarrow>
               (case crypto_box_seal env (from_string env secretValue) binkey w1 of
                  (Inl e, w2) \<Rightarrow>
                    (Inl e,
                     \<lparr>log = log s @ [SodiumReady, FromBase64 publicKey ORIGINAL,
                                      FromString secretValue,
                                      CryptoBoxSeal (from_string env secretValue) binkey],
                      world = w2\<rparr>)
                | (Inr encBytes, w2) \<Rightarrow>
                    (Inr (to_base64 env encBytes ORIGINAL),
                     \<lparr>log = log s @ [SodiumReady, FromBase64 publicKey ORIGINAL,
                                      FromString secretValue,
                                      CryptoBoxSeal (from_string env secretValue) binkey,
                                      ToBase64 encBytes ORIGINAL],
                      world = w2\<rparr>))))"
  by (simp add: encryptSecret_def step_def perform_def pure_call_def
           split: prod.splits sum.splits)

lemma encryptSecret_log:
  assumes "encryptSecret env secretValue publicKey s = (r, s')"
  shows "\<exists>calls. log s' = log s @ calls \<and> puts calls = [] \<and> key_fetches calls = []"
  using assms unfolding encryptSecret_run
  by (auto split: prod.splits sum.splits)


text \<open>
  Claim C7. Once the library is ready, \<open>encryptSecret\<close> does exactly this: it decodes the
  public key from base64 in the original (standard alphabet) variant, takes the bytes of
  the secret as \<^verbatim>\<open>from_string\<close> gives them, seals those bytes for that key with
  \<^verbatim>\<open>crypto_box_seal\<close>, and returns the sealed bytes encoded in base64 in the original
  variant; it calls the library for nothing else. When the decoding of the key throws,
  \<open>encryptSecret\<close> throws that error, and \<^verbatim>\<open>crypto_box_seal\<close> has not been called.
\<close>

theorem encryptSecret_transform:
  assumes "sodium_ready env (world s) = (Inr (), w1)"
  shows "(case from_base64 env publicKey ORIGINAL of
            Inl e \<Rightarrow>
              encryptSecret env secretValue publicKey s =
                (Inl e,
                 \<lparr>log = log s @ [SodiumReady, FromBase64 publicKey ORIGINAL], world = w1\<rparr>)
          | Inr binkey \<Rightarrow>
              (case crypto_box_seal env (from_string env secretValue) binkey w1 of
                 (Inl e, w2) \<Rightarrow>
                   encryptSecret env secretValue publicKey s =
                     (Inl e,
                      \<lparr>log = log s @ [SodiumReady, FromBase64 publicKey ORIGINAL,
                                       FromString secretValue,
                                       CryptoBoxSeal (from_string env secretValue) binkey],
                       world = w2\<rparr>)
               | (Inr encBytes, w2) \<Rightarrow>
                   encryptSecret env secretValue publicKey s =
                     (Inr (to_base64 env encBytes ORIGINAL),
                      \<lparr>log = log s @ [SodiumReady, FromBase64 publicKey ORIGINAL,
                                       FromString secretValue,
                                       CryptoBoxSeal (from_string env secretValue) binkey,
                                       ToBase64 encBytes ORIGINAL],
                       world = w2\<rparr>)))"
  using assms unfolding encryptSecret_run
  by (simp split: prod.splits sum.splits)

lemmas stub_eval = stub_env_def start_def apiVersion_def

theorem encryptSecret_transform_witness:
  "encryptSecret stub_env ''v'' ''QUJD'' start =
     (Inr ''aABCv'',
      \<lparr>log = [SodiumReady, FromBase64 ''QUJD'' ORIGINAL, FromString ''v'',
              CryptoBoxSeal [118] [65, 66, 67], ToBase64 [97, 65, 66, 67, 118] ORIGINAL],
       world = 1\<rparr>) \<and>
   encryptSecret stub_env ''v'' ''%%%'' start =
     (Inl (Error ''invalid input''),
      \<lparr>log = [SodiumReady, FromBase64 ''%%%'' ORIGINAL], world = 0\<rparr>)"
proof -
  have r: "sodium_ready stub_env (world start) = (Inr (), 0)"
    by (simp add: stub_eval)
  have good: "from_base64 stub_env ''QUJD'' ORIGINAL = Inr [65, 66, 67]"
    and bad: "from_base64 stub_env ''%%%'' ORIGINAL = Inl (Error ''invalid input'')"
    by (simp_all add: stub_eval)
  have bs: "from_string stub_env ''v'' = [118]"
    by (simp add: stub_eval)
  have box: "crypto_box_seal stub_env [118] [65, 66, 67] 0 = (Inr [97, 65, 66, 67, 118], 1)"
    by (simp add: stub_eval)
  have "map (\<lambda>x. char_of (unat x)) [97, 65, 66, 67, 118 :: 8 word] = ''aABCv''"
    by code_simp
  then have enc: "to_base64 stub_env [97, 65, 66, 67, 118] ORIGINAL = ''aABCv''"
    by (simp add: stub_eval)
  show ?thesis
    using encryptSecret_transform [OF r, where publicKey = "''QUJD''" and secretValue = "''v''"]
      encryptSecret_transform [OF r, where publicKey = "''%%%''" and secretValue = "''v''"]
    by (simp add: good bad bs box enc start_def)
qed

subsection \<open>What \<open>createOrUpdateRepoSecret\<close> sends\<close>

lemma getRepoPublicKey_run:
  "getRepoPublicKey env owner repo s =
     (case get_public_key env
             \<lparr>gk_owner = owner, gk_repo = repo, gk_api_version = apiVersion\<rparr> (world s) of
        (r, w') \<Rightarrow>
          (r, \<lparr>log = log s @ [GetPublicKey \<lparr>gk_owner = owner, gk_repo = repo,
                                            gk_api_version = apiVersion\<rparr>],
               world = w'\<rparr>))"
  by (simp add: getRepoPublicKey_def perform_def Let_def)

lemma createOrUpdateRepoSecret_run:
  "createOrUpdateRepoSecret env owner repo secretName secretValue s =
     (case getRepoPublicKey env owner repo s of
        (Inl e, s1) \<Rightarrow> (Inl e, s1)
      | (Inr publicKeyData, s1) \<Rightarrow>
          (case encryptSecret env secretValue (key publicKeyData) s1 of
             (Inl e, s2) \<Rightarrow> (Inl e, s2)
           | (Inr encryptedValue, s2) \<Rightarrow>
               (case put_secret env
                       \<lparr>ps_owner = owner, ps_repo = repo, secret_name = secretName,
                        encrypted_value = encryptedValue, ps_key_id = key_id publicKeyData,
                        ps_api_version = apiVersion\<rparr> (world s2) of
                  (r, w') \<Rightarrow>
                    (r, \<lparr>log = log s2 @
                              [PutSecret
                                 \<lparr>ps_owner = owner, ps_repo = repo, secret_name = secretName,
                                  encrypted_value = encryptedValue,
                                  ps_key_id = key_id publicKeyData,
                                  ps_api_version = apiVersion\<rparr>],
                         world = w'\<rparr>))))"
  by (simp add: createOrUpdateRepoSecret_def step_def perform_def Let_def
           split: prod.splits sum.splits)



subsection \<open>The batch\<close>

lemma createOrUpdateRepoSecret_fetches_once:
  assumes "createOrUpdateRepoSecret env owner repo secretName secretValue s = (res, s')"
  shows "\<exists>calls. log s' = log s @ calls \<and>
           key_fetches calls =
             [\<lparr>gk_owner = owner, gk_repo = repo, gk_api_version = apiVersion\<rparr>]"
proof -
  let ?req = "\<lparr>gk_owner = owner, gk_repo = repo, gk_api_version = apiVersion\<rparr>"
  obtain r1 s1 where g: "getRepoPublicKey env owner repo s = (r1, s1)"
    by (cases "getRepoPublicKey env owner repo s")
  then have l1: "log s1 = log s @ [GetPublicKey ?req]"
    by (auto simp: getRepoPublicKey_run split: prod.splits)
  show ?thesis
  proof (cases r1)
    case (Inl e)
    with assms g l1 show ?thesis
      by (simp add: createOrUpdateRepoSecret_run)
  next
    case pk: (Inr publicKeyData)
    obtain r2 s2 where en: "encryptSecret env secretValue (key publicKeyData) s1 = (r2, s2)"
      by (cases "encryptSecret env secretValue (key publicKeyData) s1")
    from encryptSecret_log [OF en] obtain cs where
      l2: "log s2 = log s1 @ cs" and nof: "key_fetches cs = []"
      by blast
    show ?thesis
    proof (cases r2)
      case (Inl e)
      with assms g pk en have "s' = s2"
        by (simp add: createOrUpdateRepoSecret_run)
      with l1 l2 nof show ?thesis
        by (simp add: key_fetches_append)
    next
      case (Inr encryptedValue)
      with assms g pk en obtain req where "log s' = log s2 @ [PutSecret req]"
        by (auto simp: createOrUpdateRepoSecret_run split: prod.splits)
      with l1 l2 have "log s' = log s @ (GetPublicKey ?req # cs @ [PutSecret req])"
        by simp
      moreover have "key_fetches (GetPublicKey ?req # cs @ [PutSecret req]) = [?req]"
        using nof by (simp add: key_fetches_append)
      ultimately show ?thesis
        by blast
    qed
  qed
qed

lemma attempts_names:
  "attempts env owner repo secrets s = (outs, s') \<Longrightarrow> map fst outs = map fst secrets"
  by (induction secrets arbitrary: s outs) (auto split: prod.splits)

lemma attempts_fetches:
  "attempts env owner repo secrets s = (outs, s') \<Longrightarrow>
   \<exists>calls. log s' = log s @ calls \<and>
     key_fetches calls =
       replicate (length secrets)
         \<lparr>gk_owner = owner, gk_repo = repo, gk_api_version = apiVersion\<rparr>"
proof (induction secrets arbitrary: s outs s')
  case Nil
  then show ?case by simp
next
  case (Cons p secrets)
  obtain nm val where p: "p = (nm, val)" by (cases p)
  obtain r s1 where one: "createOrUpdateRepoSecret env owner repo nm val s = (r, s1)"
    by (cases "createOrUpdateRepoSecret env owner repo nm val s")
  obtain rs s2 where more: "attempts env owner repo secrets s1 = (rs, s2)"
    by (cases "attempts env owner repo secrets s1")
  from Cons.prems p one more have s': "s' = s2"
    by simp
  from createOrUpdateRepoSecret_fetches_once [OF one] obtain c1 where
    c1: "log s1 = log s @ c1"
      "key_fetches c1 = [\<lparr>gk_owner = owner, gk_repo = repo, gk_api_version = apiVersion\<rparr>]"
    by blast
  from Cons.IH [OF more] obtain c2 where
    c2: "log s2 = log s1 @ c2"
      "key_fetches c2 =
         replicate (length secrets)
           \<lparr>gk_owner = owner, gk_repo = repo, gk_api_version = apiVersion\<rparr>"
    by blast
  have "log s' = log s @ (c1 @ c2)"
    using s' c1(1) c2(1) by simp
  moreover have "key_fetches (c1 @ c2) =
      replicate (length (p # secrets))
        \<lparr>gk_owner = owner, gk_repo = repo, gk_api_version = apiVersion\<rparr>"
    using c1(2) c2(2) by (simp add: key_fetches_append)
  ultimately show ?case
    by blast
qed

lemma failures_Inl [simp]:
  "failures ((nm, Inl e) # rs) = \<lparr>failed_name = nm, failed_error = error_text e\<rparr> # failures rs"
  by (cases e) simp_all

lemma failures_texts:
  "set (failures outs) =
     {\<lparr>failed_name = nm, failed_error = m\<rparr> | nm m. (nm, Inl (Error m)) \<in> set outs} \<union>
     {\<lparr>failed_name = nm, failed_error = t\<rparr> | nm t. (nm, Inl (Thrown t)) \<in> set outs}"
  by (induction outs rule: failures.induct) auto

lemma batch_loop_attempts:
  "attempts env owner repo secrets s = (outs, s') \<Longrightarrow>
   batch_loop env owner repo secrets succ0 failed0 s =
     (\<lparr>success = succ0 @ succeeded outs, failed = failed0 @ failures outs\<rparr>, s')"
proof (induction secrets arbitrary: s outs s' succ0 failed0)
  case Nil
  then show ?case by simp
next
  case (Cons p secrets)
  obtain nm val where p: "p = (nm, val)" by (cases p)
  obtain r s1 where one: "createOrUpdateRepoSecret env owner repo nm val s = (r, s1)"
    by (cases "createOrUpdateRepoSecret env owner repo nm val s")
  obtain rs s2 where more: "attempts env owner repo secrets s1 = (rs, s2)"
    by (cases "attempts env owner repo secrets s1")
  from Cons.prems p one more have outs: "outs = (nm, r) # rs" and s': "s' = s2"
    by simp_all
  show ?case
  proof (cases r)
    case (Inl e)
    with Cons.IH [OF more, of succ0 "failed0 @ [\<lparr>failed_name = nm, failed_error = error_text e\<rparr>]"]
      p one outs s'
    show ?thesis by simp
  next
    case (Inr u)
    with Cons.IH [OF more, of "succ0 @ [nm]" failed0] p one outs s'
    show ?thesis by simp
  qed
qed

lemma outcome_names_mset:
  "mset (succeeded outs) + mset (map failed_name (failures outs)) = mset (map fst outs)"
  by (induction outs rule: succeeded.induct) simp_all

lemma succeeded_subset: "set (succeeded outs) \<subseteq> fst ` set outs"
  by (induction outs rule: succeeded.induct) auto

lemma failures_subset: "set (map failed_name (failures outs)) \<subseteq> fst ` set outs"
  by (induction outs rule: succeeded.induct) auto

lemma outcome_names_disjoint:
  "distinct (map fst outs) \<Longrightarrow>
   set (succeeded outs) \<inter> set (map failed_name (failures outs)) = {}"
proof (induction outs rule: succeeded.induct)
  case 1
  then show ?case by simp
next
  case (2 nm u rs)
  then show ?case
    using failures_subset [of rs] by auto
next
  case (3 nm e rs)
  then show ?case
    using succeeded_subset [of rs] by auto
qed

text \<open>
  Claim C10. \<open>batchCreateSecrets\<close> never throws. It runs \<open>createOrUpdateRepoSecret\<close> for
  every entry, in input order, each from the state the one before left, whether the
  earlier ones returned or threw: the public key is fetched once per entry. Its result
  lists under \<open>success\<close> the names whose upload returned and under \<open>failed\<close> the names
  whose upload threw, both in input order. A failed name is paired with the message of the
  \<^verbatim>\<open>Error\<close> its upload threw (with the thrown value as a string, when that is no
  \<^verbatim>\<open>Error\<close>), and the failed list holds nothing else. Every input name is in one of
  the two lists, as often as it is in the input; the names of an object are distinct, and
  then no name is in both.
\<close>

theorem batchCreateSecrets_attempts_all:
  assumes "batchCreateSecrets env owner repo secrets s = (res, s')"
  shows "\<exists>outs calls.
           attempts env owner repo secrets s = (outs, s') \<and>
           map fst outs = map fst secrets \<and>
           res = Inr \<lparr>success = succeeded outs, failed = failures outs\<rparr> \<and>
           set (failures outs) =
             {\<lparr>failed_name = nm, failed_error = m\<rparr> | nm m. (nm, Inl (Error m)) \<in> set outs} \<union>
             {\<lparr>failed_name = nm, failed_error = t\<rparr> | nm t. (nm, Inl (Thrown t)) \<in> set outs} \<and>
           log s' = log s @ calls \<and>
           key_fetches calls =
             replicate (length secrets)
               \<lparr>gk_owner = owner, gk_repo = repo, gk_api_version = apiVersion\<rparr> \<and>
           mset (succeeded outs) + mset (map failed_name (failures outs)) =
             mset (map fst secrets) \<and>
           (distinct (map fst secrets) \<longrightarrow>
              set (succeeded outs) \<inter> set (map failed_name (failures outs)) = {})"
proof -
  obtain outs s2 where a: "attempts env owner repo secrets s = (outs, s2)"
    by (cases "attempts env owner repo secrets s")
  from batch_loop_attempts [OF a, of "[]" "[]"] assms
  have res: "res = Inr \<lparr>success = succeeded outs, failed = failures outs\<rparr>" and s': "s' = s2"
    by (simp_all add: batchCreateSecrets_def)
  have names: "map fst outs = map fst secrets"
    by (rule attempts_names [OF a])
  from attempts_fetches [OF a] obtain calls where
    calls: "log s2 = log s @ calls"
      "key_fetches calls =
         replicate (length secrets)
           \<lparr>gk_owner = owner, gk_repo = repo, gk_api_version = apiVersion\<rparr>"
    by blast
  have m: "mset (succeeded outs) + mset (map failed_name (failures outs)) =
           mset (map fst secrets)"
    using outcome_names_mset [of outs] names by simp
  have d: "distinct (map fst secrets) \<longrightarrow>
           set (succeeded outs) \<inter> set (map failed_name (failures outs)) = {}"
    using outcome_names_disjoint [of outs] names by simp
  note t = failures_texts [of outs]
  show ?thesis
    apply (rule exI [of _ outs])
    apply (rule exI [of _ calls])
    using a s' names res calls m d t
    apply (intro conjI)
           apply simp_all
    done
qed

theorem batchCreateSecrets_attempts_all_witness:
  "batchCreateSecrets stub_env ''o'' ''r'' [(''LOCKED'', ''2''), (''A'', ''1'')] start =
     (Inr \<lparr>success = [''A''],
            failed = [\<lparr>failed_name = ''LOCKED'',
                       failed_error = ''Resource not accessible by integration''\<rparr>]\<rparr>,
      snd (attempts stub_env ''o'' ''r'' [(''LOCKED'', ''2''), (''A'', ''1'')] start)) \<and>
   key_fetches
     (log (snd (batchCreateSecrets stub_env ''o'' ''r'' [(''LOCKED'', ''2''), (''A'', ''1'')]
                  start))) =
     [\<lparr>gk_owner = ''o'', gk_repo = ''r'', gk_api_version = ''2022-11-28''\<rparr>,
      \<lparr>gk_owner = ''o'', gk_repo = ''r'', gk_api_version = ''2022-11-28''\<rparr>] \<and>
   fst (batchCreateSecrets stub_env ''o'' ''gone'' [(''ODD'', ''3'')] start) =
     Inr \<lparr>success = [],
           failed = [\<lparr>failed_name = ''ODD'', failed_error = ''Not Found''\<rparr>]\<rparr> \<and>
   fst (batchCreateSecrets stub_env ''o'' ''r'' [(''ODD'', ''3'')] start) =
     Inr \<lparr>success = [], failed = [\<lparr>failed_name = ''ODD'', failed_error = ''403''\<rparr>]\<rparr>"
proof -
  let ?secrets = "[(''LOCKED'', ''2''), (''A'', ''1'')]"
  obtain res s' where b: "batchCreateSecrets stub_env ''o'' ''r'' ?secrets start = (res, s')"
    by (cases "batchCreateSecrets stub_env ''o'' ''r'' ?secrets start")
  have outs: "fst (attempts stub_env ''o'' ''r'' ?secrets start) =
                [(''LOCKED'', Inl (Error ''Resource not accessible by integration'')),
                 (''A'', Inr ())]"
    by code_simp
  from batchCreateSecrets_attempts_all [OF b] obtain os calls where
    f: "attempts stub_env ''o'' ''r'' ?secrets start = (os, s')"
      "res = Inr \<lparr>success = succeeded os, failed = failures os\<rparr>"
      "log s' = log start @ calls"
      "key_fetches calls =
         replicate (length ?secrets)
           \<lparr>gk_owner = ''o'', gk_repo = ''r'', gk_api_version = apiVersion\<rparr>"
    by blast
  from f(1) outs have os:
    "os = [(''LOCKED'', Inl (Error ''Resource not accessible by integration'')), (''A'', Inr ())]"
    by simp
  have "res = Inr \<lparr>success = [''A''],
                     failed = [\<lparr>failed_name = ''LOCKED'',
                                failed_error = ''Resource not accessible by integration''\<rparr>]\<rparr>"
    using f(2) os by (simp del: failures_Inl)
  moreover have "key_fetches (log s') =
      [\<lparr>gk_owner = ''o'', gk_repo = ''r'', gk_api_version = ''2022-11-28''\<rparr>,
       \<lparr>gk_owner = ''o'', gk_repo = ''r'', gk_api_version = ''2022-11-28''\<rparr>]"
    using f(3,4) by (simp add: start_def apiVersion_def)
  moreover have "fst (batchCreateSecrets stub_env ''o'' ''gone'' [(''ODD'', ''3'')] start) =
      Inr \<lparr>success = [],
            failed = [\<lparr>failed_name = ''ODD'', failed_error = ''Not Found''\<rparr>]\<rparr>"
  proof -
    obtain r1 t1 where b1:
      "batchCreateSecrets stub_env ''o'' ''gone'' [(''ODD'', ''3'')] start = (r1, t1)"
      by (cases "batchCreateSecrets stub_env ''o'' ''gone'' [(''ODD'', ''3'')] start")
    have o1: "fst (attempts stub_env ''o'' ''gone'' [(''ODD'', ''3'')] start) =
                [(''ODD'', Inl (Error ''Not Found''))]"
      by code_simp
    from batchCreateSecrets_attempts_all [OF b1] o1 b1 show ?thesis
      by (auto simp del: failures_Inl)
  qed
  moreover have "fst (batchCreateSecrets stub_env ''o'' ''r'' [(''ODD'', ''3'')] start) =
      Inr \<lparr>success = [], failed = [\<lparr>failed_name = ''ODD'', failed_error = ''403''\<rparr>]\<rparr>"
  proof -
    obtain r1 t1 where b1:
      "batchCreateSecrets stub_env ''o'' ''r'' [(''ODD'', ''3'')] start = (r1, t1)"
      by (cases "batchCreateSecrets stub_env ''o'' ''r'' [(''ODD'', ''3'')] start")
    have o1: "fst (attempts stub_env ''o'' ''r'' [(''ODD'', ''3'')] start) =
                [(''ODD'', Inl (Thrown ''403''))]"
      by code_simp
    from batchCreateSecrets_attempts_all [OF b1] o1 b1 show ?thesis
      by (auto simp del: failures_Inl)
  qed
  ultimately show ?thesis
    using b f(1) by simp
qed

end
